theory Spec2Isabelle
  imports Main "HOL-Library.AList"
begin

section \<open>The DOM as the injected script sees it\<close>

text \<open>
  \<^verbatim>\<open>Tagger.tag_from_element\<close> (autoscrape/backends/selenium/tags.py) sends a JavaScript
  function \<^verbatim>\<open>getPathTo\<close> to the browser. The script reads four properties of a DOM
  node: \<^verbatim>\<open>nodeType\<close>, \<^verbatim>\<open>nodeName\<close>, \<^verbatim>\<open>parentNode\<close> and
  \<^verbatim>\<open>previousElementSibling\<close>. A DOM snapshot is a tree of nodes; every node carries
  its type code and its name, and its children in document order.
\<close>

datatype node = Node (nodeType: nat) (nodeName: string) (childNodes: "node list")

definition ELEMENT_NODE :: nat where
  "ELEMENT_NODE = 1"

definition TEXT_NODE :: nat where
  "TEXT_NODE = 3"

definition DOCUMENT_NODE :: nat where
  "DOCUMENT_NODE = 9"

text \<open>
  A WebElement handle of the driver is the position of a node in the snapshot: the child
  indices on the way from the root of the tree down to the node.
\<close>

type_synonym handle = "nat list"

fun node_at :: "node \<Rightarrow> handle \<Rightarrow> node option" where
  "node_at n [] = Some n"
| "node_at n (i # is) =
     (if i < length (childNodes n) then node_at (childNodes n ! i) is else None)"

text \<open>
  Inside the script a node reference is followed upwards (\<^verbatim>\<open>el.parentNode\<close>) and to the
  left (\<^verbatim>\<open>sib.previousElementSibling\<close>). A reference is therefore a list of frames, the
  node itself first and the root of the tree last; each frame holds a node together with
  its preceding siblings, the nearest one first. The empty list is \<^verbatim>\<open>null\<close>: the
  \<^verbatim>\<open>parentNode\<close> of the root.
\<close>

type_synonym frame = "node \<times> node list"

type_synonym node_ref = "frame list"

fun resolve_from :: "node_ref \<Rightarrow> node \<Rightarrow> node list \<Rightarrow> handle \<Rightarrow> node_ref option" where
  "resolve_from up n preceding [] = Some ((n, preceding) # up)"
| "resolve_from up n preceding (i # is) =
     (if i < length (childNodes n)
      then resolve_from ((n, preceding) # up) (childNodes n ! i) (rev (take i (childNodes n))) is
      else None)"

definition resolve :: "node \<Rightarrow> handle \<Rightarrow> node_ref option" where
  "resolve root h = resolve_from [] root [] h"

text \<open>
  \<^verbatim>\<open>sib.previousElementSibling\<close>: the nearest preceding sibling that is an element,
  given with the siblings that precede it in turn; the empty list when there is none.
\<close>

definition previousElementSibling :: "node list \<Rightarrow> node list" where
  "previousElementSibling preceding = dropWhile (\<lambda>sib. nodeType sib \<noteq> ELEMENT_NODE) preceding"

subsection \<open>Strings of the script\<close>

text \<open>
  \<^verbatim>\<open>String.prototype.toLowerCase\<close>. A string is the list of the bytes of its UTF-8
  form. On a string of ASCII characters the conversion replaces the letters A to Z by
  a to z and keeps every other character. On any other string it is the Unicode case
  conversion of the browser, which may change several bytes or the length of the string;
  that conversion is not written out here, it is the parameter \<open>unicode_lower\<close>.
\<close>

definition is_ascii :: "char \<Rightarrow> bool" where
  "is_ascii c = (\<not> digit7 c)"

definition lower_char :: "char \<Rightarrow> char" where
  "lower_char c =
     (case map_of (zip ''ABCDEFGHIJKLMNOPQRSTUVWXYZ'' ''abcdefghijklmnopqrstuvwxyz'') c of
        Some l \<Rightarrow> l
      | None \<Rightarrow> c)"

definition toLowerCase :: "(string \<Rightarrow> string) \<Rightarrow> string \<Rightarrow> string" where
  "toLowerCase unicode_lower str =
     (if list_all is_ascii str then map lower_char str else unicode_lower str)"

text \<open>The decimal digits of a number, as \<^verbatim>\<open>"" + nth\<close> writes a small integer.\<close>

definition digit_char :: "nat \<Rightarrow> char" where
  "digit_char d = ''0123456789'' ! d"

fun string_of_nat :: "nat \<Rightarrow> string" where
  "string_of_nat n =
     (if n < 10 then [digit_char n]
      else string_of_nat (n div 10) @ [digit_char (n mod 10)])"

declare string_of_nat.simps [simp del]

text \<open>\<^verbatim>\<open>Array.prototype.join\<close>.\<close>

fun join :: "string \<Rightarrow> string list \<Rightarrow> string" where
  "join sep [] = []"
| "join sep [x] = x"
| "join sep (x # y # ys) = x @ sep @ join sep (y # ys)"

subsection \<open>The script\<close>

text \<open>
  The functions of the script take the Unicode conversion of the browser as their first
  argument \<open>lc\<close>. The inner loop
  \<^verbatim>\<open>while (sib = sib.previousElementSibling) { if (sib.nodeName.toLowerCase() == selector) nth++; }\<close>
  started with the preceding siblings of \<^verbatim>\<open>el\<close> and \<^verbatim>\<open>nth = 1\<close>.
\<close>

function nth_loop :: "(string \<Rightarrow> string) \<Rightarrow> node list \<Rightarrow> string \<Rightarrow> nat \<Rightarrow> nat" where
  "nth_loop lc preceding selector nth' =
     (case previousElementSibling preceding of
        [] \<Rightarrow> nth'
      | sib # preceding' \<Rightarrow>
          nth_loop lc preceding' selector
            (if toLowerCase lc (nodeName sib) = selector then nth' + 1 else nth'))"
  by pat_completeness auto

lemma previousElementSibling_shorter:
  "previousElementSibling preceding = sib # preceding' \<Longrightarrow> length preceding' < length preceding"
proof -
  assume eq: "previousElementSibling preceding = sib # preceding'"
  have "length (previousElementSibling preceding) \<le> length preceding"
    unfolding previousElementSibling_def by (rule length_dropWhile_le)
  with eq show ?thesis by simp
qed

termination nth_loop
  by (relation "measure (\<lambda>(lc, preceding, selector, nth'). length preceding)")
     (auto dest: previousElementSibling_shorter)

declare nth_loop.simps [simp del]

text \<open>
  What can go wrong when the driver runs the script: the handle no longer names a node of
  the page (the driver refuses a stale element), or the script itself throws. The script
  throws in one place only: \<^verbatim>\<open>el.nodeType\<close> when \<^verbatim>\<open>el\<close> is \<^verbatim>\<open>null\<close>.
\<close>

datatype error = StaleElementReferenceException | JavascriptException

text \<open>
  The outer loop \<^verbatim>\<open>while (el.nodeType === Node.ELEMENT_NODE) { ... el = el.parentNode; }\<close>
  with the array \<^verbatim>\<open>path\<close>; \<^verbatim>\<open>path.unshift(selector)\<close> puts the new level in front.
\<close>

fun path_loop :: "(string \<Rightarrow> string) \<Rightarrow> node_ref \<Rightarrow> string list \<Rightarrow> error + string list" where
  "path_loop lc [] path = Inl JavascriptException"
| "path_loop lc ((el, preceding) # up) path =
     (if nodeType el = ELEMENT_NODE
      then (let selector = toLowerCase lc (nodeName el);
                nth' = nth_loop lc preceding selector 1;
                selector = selector @ '':nth-of-type('' @ string_of_nat nth' @ '')''
            in path_loop lc up (selector # path))
      else Inr path)"

text \<open>
  \<^verbatim>\<open>getPathTo\<close>. \<^verbatim>\<open>el instanceof Element\<close> holds of the nodes whose type is
  \<^verbatim>\<open>ELEMENT_NODE\<close>; the bare \<^verbatim>\<open>return\<close> gives \<^verbatim>\<open>undefined\<close>, which the driver
  hands to Python as \<^verbatim>\<open>None\<close>.
\<close>

definition instanceof_Element :: "node_ref \<Rightarrow> bool" where
  "instanceof_Element el = (case el of [] \<Rightarrow> False | (n, preceding) # up \<Rightarrow> nodeType n = ELEMENT_NODE)"

definition getPathTo :: "(string \<Rightarrow> string) \<Rightarrow> node_ref \<Rightarrow> error + string option" where
  "getPathTo lc el =
     (if \<not> instanceof_Element el then Inr None
      else case path_loop lc el [] of
             Inl e \<Rightarrow> Inl e
           | Inr path \<Rightarrow> Inr (Some (join '' > '' path)))"

section \<open>The browser session and the tagger\<close>

text \<open>
  The tagger holds a driver. Of the browser it sees the DOM (through the script, which
  also uses the case conversion of the browser), the answers
  of \<^verbatim>\<open>elements_by_path\<close> (a method of the class \<^verbatim>\<open>Dom\<close> in
  autoscrape/backends/selenium/dom.py, which is not among the sources: its answer to each
  path expression is a parameter here) and the driver's answers to \<^verbatim>\<open>is_displayed\<close> and
  \<^verbatim>\<open>is_enabled\<close>, parameters as well. The three answer as total functions: an
  exception of the driver inside one of them is not part of this model. The exceptions of
  the script call are.
\<close>

record session =
  dom :: node
  unicode_lower :: "string \<Rightarrow> string"
  elements_by_path :: "string \<Rightarrow> handle list"
  is_displayed :: "handle \<Rightarrow> bool"
  is_enabled :: "handle \<Rightarrow> bool"

definition execute_script_getPathTo :: "session \<Rightarrow> handle \<Rightarrow> error + string option" where
  "execute_script_getPathTo s element =
     (case resolve (dom s) element of
        None \<Rightarrow> Inl StaleElementReferenceException
      | Some el \<Rightarrow> getPathTo (unicode_lower s) el)"

definition tag_from_element :: "session \<Rightarrow> handle \<Rightarrow> error + string option" where
  "tag_from_element s element = execute_script_getPathTo s element"

subsection \<open>Python values and the log\<close>

text \<open>
  \<^verbatim>\<open>if not tag\<close>: \<^verbatim>\<open>None\<close> and the empty string are false, every other string is true.
  \<open>truthy\<close> keeps the strings that are true.
\<close>

definition truthy :: "string option \<Rightarrow> string option" where
  "truthy v = (case v of None \<Rightarrow> None | Some str \<Rightarrow> if str = [] then None else Some str)"

text \<open>
  \<^verbatim>\<open>logger.warn(msg % elem)\<close>: a record holds the text of the message and the element
  that is formatted into it. The log is threaded through every call, so the records
  written before an exception are kept.
\<close>

datatype log_record = Warn string handle

type_synonym log = "log_record list"

type_synonym 'a outcome = "(error + 'a) \<times> log"

text \<open>One statement after another: an exception of the first ends the sequence.\<close>

definition and_then :: "'a outcome \<Rightarrow> ('a \<Rightarrow> log \<Rightarrow> 'b outcome) \<Rightarrow> 'b outcome" where
  "and_then m f = (case m of (Inl e, lg) \<Rightarrow> (Inl e, lg) | (Inr x, lg) \<Rightarrow> f x lg)"

definition apostrophe :: string where
  "apostrophe = [CHR 0x27]"

subsection \<open>get_inputs\<close>

text \<open>The loop \<^verbatim>\<open>for input in elems\<close> of \<^verbatim>\<open>get_inputs\<close> with its list \<^verbatim>\<open>tags\<close>.\<close>

fun get_inputs_loop :: "session \<Rightarrow> handle list \<Rightarrow> string list \<Rightarrow> log \<Rightarrow> string list outcome" where
  "get_inputs_loop s [] tags lg = (Inr tags, lg)"
| "get_inputs_loop s (input # elems) tags lg =
     (case tag_from_element s input of
        Inl e \<Rightarrow> (Inl e, lg)
      | Inr input_tag \<Rightarrow>
          (case truthy input_tag of
             None \<Rightarrow> get_inputs_loop s elems tags (lg @ [Warn ''No tag for input %s'' input])
           | Some t \<Rightarrow> get_inputs_loop s elems (tags @ [t]) lg))"

text \<open>
  \<^verbatim>\<open>get_inputs(form=None, itype=None)\<close>. The source also sets a local variable
  \<^verbatim>\<open>elem\<close> to the driver or to the form; nothing reads it, and the query is
  \<^verbatim>\<open>self.elements_by_path(x_path)\<close> in both cases.
\<close>

definition get_inputs :: "session \<Rightarrow> handle option \<Rightarrow> string option \<Rightarrow> log \<Rightarrow> string list outcome" where
  "get_inputs s form itype lg =
     (let x_path = ''//input|input'';
          x_path =
            (if itype = Some ''select'' then ''//select|select''
             else case truthy itype of
                    Some t \<Rightarrow>
                      ''//input[@type='' @ apostrophe @ t @ apostrophe @
                      '']|input[@type='' @ apostrophe @ t @ apostrophe @ '']''
                  | None \<Rightarrow> x_path);
          x_path = (if form \<noteq> None then ''.'' @ x_path else x_path);
          elems = elements_by_path s x_path
      in get_inputs_loop s elems [] lg)"

subsection \<open>get_forms\<close>

text \<open>
  The list display of \<^verbatim>\<open>get_forms\<close>: four calls of \<^verbatim>\<open>get_inputs\<close> with the form,
  evaluated from left to right.
\<close>

definition form_inputs :: "session \<Rightarrow> handle \<Rightarrow> log \<Rightarrow> string list list outcome" where
  "form_inputs s elem lg =
     and_then (get_inputs s (Some elem) (Some ''text'') lg) (\<lambda>texts lg.
     and_then (get_inputs s (Some elem) (Some ''select'') lg) (\<lambda>selects lg.
     and_then (get_inputs s (Some elem) (Some ''checkbox'') lg) (\<lambda>checkboxes lg.
     and_then (get_inputs s (Some elem) (Some ''date'') lg) (\<lambda>dates lg.
       (Inr [texts, selects, checkboxes, dates], lg)))))"

text \<open>
  The dict \<^verbatim>\<open>tags\<close> keeps its keys in the order of their first insertion;
  \<^verbatim>\<open>tags[tag] = v\<close> replaces the value of a key that is there and appends a new key
  otherwise, which is \<^const>\<open>AList.update\<close> on the list of its items.
\<close>

type_synonym form_tags = "(string \<times> string list list) list"

fun get_forms_loop :: "session \<Rightarrow> handle list \<Rightarrow> form_tags \<Rightarrow> log \<Rightarrow> form_tags outcome" where
  "get_forms_loop s [] tags lg = (Inr tags, lg)"
| "get_forms_loop s (elem # forms) tags lg =
     (if \<not> is_displayed s elem \<or> \<not> is_enabled s elem
      then get_forms_loop s forms tags lg
      else case tag_from_element s elem of
             Inl e \<Rightarrow> (Inl e, lg)
           | Inr tag \<Rightarrow>
               (case truthy tag of
                  None \<Rightarrow> get_forms_loop s forms tags (lg @ [Warn ''No tag for element %s'' elem])
                | Some t \<Rightarrow>
                    (case form_inputs s elem lg of
                       (Inl e, lg') \<Rightarrow> (Inl e, lg')
                     | (Inr inputs, lg') \<Rightarrow>
                         get_forms_loop s forms (AList.update t inputs tags) lg')))"

definition get_forms :: "session \<Rightarrow> log \<Rightarrow> form_tags outcome" where
  "get_forms s lg =
     (let x_path = ''//form'';
          forms = elements_by_path s x_path
      in get_forms_loop s forms [] lg)"

subsection \<open>get_buttons\<close>

fun get_buttons_loop :: "session \<Rightarrow> handle list \<Rightarrow> string list \<Rightarrow> log \<Rightarrow> string list outcome" where
  "get_buttons_loop s [] tags lg = (Inr tags, lg)"
| "get_buttons_loop s (elem # btns) tags lg =
     (if \<not> is_displayed s elem \<or> \<not> is_enabled s elem
      then get_buttons_loop s btns tags lg
      else case tag_from_element s elem of
             Inl e \<Rightarrow> (Inl e, lg)
           | Inr tag \<Rightarrow>
               (case truthy tag of
                  None \<Rightarrow> get_buttons_loop s btns tags (lg @ [Warn ''No tag for element %s'' elem])
                | Some t \<Rightarrow> get_buttons_loop s btns (tags @ [t]) lg))"

definition get_buttons :: "session \<Rightarrow> bool \<Rightarrow> log \<Rightarrow> string list outcome" where
  "get_buttons s in_form lg =
     (let x_path = join ''|''
            [''//form//a'', ''//button'', ''//input[@type='button']'',
             ''//input[@type='submit']'', ''//table//a''];
          btns = elements_by_path s x_path
      in get_buttons_loop s btns [] lg)"

section \<open>Descriptions the code is compared with\<close>

text \<open>
  None of the definitions of this section is code of the repository; the theorems state
  what the code computes in their terms.

  The tag of an element, level by level from the root down: the name of the node as
  \<^verbatim>\<open>toLowerCase()\<close> converts it (its lower-cased name), and its ordinal, one more than
  the number of preceding sibling elements whose lower-cased name is the same. \<open>element_path\<close> says that a handle names a node of the
  tree and that every node on the way to it, below the root, is an element.
\<close>

definition ordinal :: "(string \<Rightarrow> string) \<Rightarrow> node list \<Rightarrow> nat \<Rightarrow> nat" where
  "ordinal lc cs i =
     Suc (length (filter (\<lambda>sib. nodeType sib = ELEMENT_NODE \<and>
                          toLowerCase lc (nodeName sib) = toLowerCase lc (nodeName (cs ! i)))
                   (take i cs)))"

definition level :: "(string \<Rightarrow> string) \<Rightarrow> node list \<Rightarrow> nat \<Rightarrow> string" where
  "level lc cs i =
     toLowerCase lc (nodeName (cs ! i)) @ '':nth-of-type('' @ string_of_nat (ordinal lc cs i) @ '')''"

fun levels :: "(string \<Rightarrow> string) \<Rightarrow> node \<Rightarrow> handle \<Rightarrow> string list" where
  "levels lc n [] = []"
| "levels lc n (i # is) = level lc (childNodes n) i # levels lc (childNodes n ! i) is"

fun element_path :: "node \<Rightarrow> handle \<Rightarrow> bool" where
  "element_path n [] = True"
| "element_path n (i # is) =
     (i < length (childNodes n) \<and> nodeType (childNodes n ! i) = ELEMENT_NODE \<and>
      element_path (childNodes n ! i) is)"

text \<open>
  What an enumeration keeps of an element: its tag, when the script returns one that is a
  non-empty string. \<open>script_returns\<close> says that the driver runs the script on the
  element without an exception; \<open>shown\<close> is the test of \<^verbatim>\<open>get_forms\<close> and
  \<^verbatim>\<open>get_buttons\<close>; \<open>inputs_path\<close> is the path expression of \<^verbatim>\<open>get_inputs\<close> by
  cases of its two parameters.
\<close>

definition tag_of :: "session \<Rightarrow> handle \<Rightarrow> string option" where
  "tag_of s e = (case tag_from_element s e of Inl err \<Rightarrow> None | Inr v \<Rightarrow> truthy v)"

definition script_returns :: "session \<Rightarrow> handle \<Rightarrow> bool" where
  "script_returns s e = (case tag_from_element s e of Inl err \<Rightarrow> False | Inr v \<Rightarrow> True)"

definition shown :: "session \<Rightarrow> handle \<Rightarrow> bool" where
  "shown s e = (is_displayed s e \<and> is_enabled s e)"

definition tagged :: "session \<Rightarrow> handle list \<Rightarrow> string list" where
  "tagged s es = List.map_filter (tag_of s) es"

definition untagged :: "session \<Rightarrow> handle list \<Rightarrow> handle list" where
  "untagged s es = filter (\<lambda>e. tag_of s e = None) es"

definition inputs_path :: "handle option \<Rightarrow> string option \<Rightarrow> string" where
  "inputs_path form itype =
     (case form of None \<Rightarrow> [] | Some f \<Rightarrow> ''.'') @
     (case itype of
        None \<Rightarrow> ''//input|input''
      | Some t \<Rightarrow>
          if t = ''select'' then ''//select|select''
          else if t = [] then ''//input|input''
          else ''//input[@type='' @ apostrophe @ t @ apostrophe @
               '']|input[@type='' @ apostrophe @ t @ apostrophe @ '']'')"

text \<open>
  The levels in the words of the specification, with the name of the node as it is found
  in the DOM, case preserved (C1). The ordinal is the one above.
\<close>

definition claimed_level :: "(string \<Rightarrow> string) \<Rightarrow> node list \<Rightarrow> nat \<Rightarrow> string" where
  "claimed_level lc cs i =
     nodeName (cs ! i) @ '':nth-of-type('' @ string_of_nat (ordinal lc cs i) @ '')''"

fun claimed_levels :: "(string \<Rightarrow> string) \<Rightarrow> node \<Rightarrow> handle \<Rightarrow> string list" where
  "claimed_levels lc n [] = []"
| "claimed_levels lc n (i # is) = claimed_level lc (childNodes n) i # claimed_levels lc (childNodes n ! i) is"

text \<open>The names and the ordinals along a path, from the root down, and one level of a tag.\<close>

fun names_on_path :: "node \<Rightarrow> handle \<Rightarrow> string list" where
  "names_on_path n [] = []"
| "names_on_path n (i # is) = nodeName (childNodes n ! i) # names_on_path (childNodes n ! i) is"

fun ordinals_on_path :: "(string \<Rightarrow> string) \<Rightarrow> node \<Rightarrow> handle \<Rightarrow> nat list" where
  "ordinals_on_path lc n [] = []"
| "ordinals_on_path lc n (i # is) = ordinal lc (childNodes n) i # ordinals_on_path lc (childNodes n ! i) is"

definition selector_of :: "string \<Rightarrow> nat \<Rightarrow> string" where
  "selector_of name k = name @ '':nth-of-type('' @ string_of_nat k @ '')''"

text \<open>
  The query of \<^verbatim>\<open>get_buttons\<close> in one piece, the four kinds of input that
  \<^verbatim>\<open>get_forms\<close> asks for, and what \<^verbatim>\<open>get_forms\<close> returns and logs when no call of
  the script raises: every displayed and enabled form with a tag is entered under its tag
  with its four lists of input tags; a form without a tag leaves one warning, a form with
  a tag leaves the warnings of its four calls of \<^verbatim>\<open>get_inputs\<close>.
  \<open>answers_run\<close> says that the script runs without an exception on every element that
  \<^verbatim>\<open>elements_by_path\<close> hands out.
\<close>

definition buttons_path :: string where
  "buttons_path = ''//form//a|//button|//input[@type='button']|//input[@type='submit']|//table//a''"

definition input_kinds :: "string list" where
  "input_kinds = [''text'', ''select'', ''checkbox'', ''date'']"

definition inputs_of :: "session \<Rightarrow> handle \<Rightarrow> string list list" where
  "inputs_of s form =
     map (\<lambda>kind. tagged s (elements_by_path s (inputs_path (Some form) (Some kind)))) input_kinds"

definition inputs_warnings :: "session \<Rightarrow> handle \<Rightarrow> log" where
  "inputs_warnings s form =
     concat (map (\<lambda>kind. map (Warn ''No tag for input %s'')
                   (untagged s (elements_by_path s (inputs_path (Some form) (Some kind)))))
               input_kinds)"

definition forms_warnings :: "session \<Rightarrow> handle list \<Rightarrow> log" where
  "forms_warnings s forms =
     concat (map (\<lambda>e. case tag_of s e of
                         None \<Rightarrow> [Warn ''No tag for element %s'' e]
                       | Some t \<Rightarrow> inputs_warnings s e)
               forms)"

definition add_form :: "session \<Rightarrow> handle \<Rightarrow> form_tags \<Rightarrow> form_tags" where
  "add_form s e tags =
     (case tag_of s e of None \<Rightarrow> tags | Some t \<Rightarrow> AList.update t (inputs_of s e) tags)"

definition answers_run :: "session \<Rightarrow> bool" where
  "answers_run s = (\<forall>x_path. \<forall>e\<in>set (elements_by_path s x_path). script_returns s e)"

section \<open>A page to run the definitions on\<close>

text \<open>
  A document with a hidden form, a text node, a visible form with four controls, three
  sibling \<^verbatim>\<open>div\<close> elements and a table with a link. The browser reports the names of
  HTML elements in upper case. All the names are ASCII, so the Unicode conversion is never
  asked; it is the identity here. The answers of \<^verbatim>\<open>elements_by_path\<close> are those of a
  driver that evaluates every path expression against the whole document.
\<close>

definition example_page :: node where
  "example_page =
     Node DOCUMENT_NODE ''#document''
       [Node ELEMENT_NODE ''HTML''
          [Node ELEMENT_NODE ''HEAD'' [],
           Node ELEMENT_NODE ''BODY''
             [Node ELEMENT_NODE ''FORM'' [Node ELEMENT_NODE ''INPUT'' []],
              Node TEXT_NODE ''#text'' [],
              Node ELEMENT_NODE ''FORM''
                [Node ELEMENT_NODE ''INPUT'' [],
                 Node ELEMENT_NODE ''SELECT'' [],
                 Node ELEMENT_NODE ''INPUT'' [],
                 Node ELEMENT_NODE ''BUTTON'' []],
              Node ELEMENT_NODE ''DIV'' [],
              Node ELEMENT_NODE ''DIV'' [],
              Node ELEMENT_NODE ''DIV'' [],
              Node ELEMENT_NODE ''TABLE'' [Node ELEMENT_NODE ''A'' []]]]]"

definition example_answers :: "string \<Rightarrow> handle list" where
  "example_answers x_path =
     (if x_path = ''//form'' then [[0, 1, 0], [0, 1, 2]]
      else if x_path = ''//form//a|//button|//input[@type='button']|//input[@type='submit']|//table//a''
        then [[0, 1, 2, 3], [0, 1, 6, 0]]
      else if x_path = ''.//input[@type='text']|input[@type='text']''
        then [[0, 1, 0, 0], [0, 1, 2, 0]]
      else if x_path = ''.//select|select'' then [[0, 1, 2, 1]]
      else if x_path = ''.//input[@type='checkbox']|input[@type='checkbox']''
        then [[0, 1, 2, 2]]
      else [])"

definition example_session :: session where
  "example_session =
     \<lparr>dom = example_page,
      unicode_lower = (\<lambda>str. str),
      elements_by_path = example_answers,
      is_displayed = (\<lambda>e. take 3 e \<noteq> [0, 1, 0]),
      is_enabled = (\<lambda>e. True)\<rparr>"

text \<open>
  The same page with a Dom helper that also hands out the text node, among the inputs and
  among the buttons.
\<close>

definition stray_answers :: "string \<Rightarrow> handle list" where
  "stray_answers x_path =
     (if x_path = ''//input|input'' then [[0, 1, 0, 0], [0, 1, 1], [0, 1, 2, 0], [0, 1, 2, 2]]
      else if x_path = ''//form//a|//button|//input[@type='button']|//input[@type='submit']|//table//a''
        then [[0, 1, 2, 3], [0, 1, 1], [0, 1, 6, 0]]
      else example_answers x_path)"

definition stray_session :: session where
  "stray_session = example_session\<lparr>elements_by_path := stray_answers\<rparr>"

text \<open>The definitions that \<open>simp\<close> unfolds to run the script on a given page.\<close>

lemmas script_eval =
  tag_from_element_def execute_script_getPathTo_def resolve_def getPathTo_def
  instanceof_Element_def ELEMENT_NODE_def TEXT_NODE_def DOCUMENT_NODE_def nth_loop.simps
  previousElementSibling_def toLowerCase_def is_ascii_def lower_char_def string_of_nat.simps
  digit_char_def

lemmas example_eval = example_session_def example_page_def example_answers_def

lemmas spec_eval =
  tag_of_def truthy_def tagged_def untagged_def shown_def inputs_path_def buttons_path_def
  apostrophe_def script_returns_def

section \<open>The script computes the path\<close>

lemma nth_loop_Nil: "nth_loop lc [] selector k = k"
  by (simp add: nth_loop.simps previousElementSibling_def)

lemma nth_loop_Cons:
  "nth_loop lc (x # xs) selector k =
     (if nodeType x = ELEMENT_NODE
      then nth_loop lc xs selector (if toLowerCase lc (nodeName x) = selector then k + 1 else k)
      else nth_loop lc xs selector k)"
proof (cases "nodeType x = ELEMENT_NODE")
  case True
  then have "previousElementSibling (x # xs) = x # xs"
    by (simp add: previousElementSibling_def)
  then show ?thesis using True
    by (subst nth_loop.simps) simp
next
  case False
  then have "previousElementSibling (x # xs) = previousElementSibling xs"
    by (simp add: previousElementSibling_def)
  then have "nth_loop lc (x # xs) selector k = nth_loop lc xs selector k"
    by (simp add: nth_loop.simps [of lc "x # xs"] nth_loop.simps [of lc xs])
  with False show ?thesis by simp
qed

lemma nth_loop_count:
  "nth_loop lc xs selector k =
     k + length (filter (\<lambda>sib. nodeType sib = ELEMENT_NODE \<and> toLowerCase lc (nodeName sib) = selector) xs)"
  by (induction xs arbitrary: k) (simp_all add: nth_loop_Nil nth_loop_Cons)

lemma nth_loop_ordinal:
  "nth_loop lc (rev (take i cs)) (toLowerCase lc (nodeName (cs ! i))) 1 = ordinal lc cs i"
proof -
  let ?P = "\<lambda>sib. nodeType sib = ELEMENT_NODE \<and> toLowerCase lc (nodeName sib) = toLowerCase lc (nodeName (cs ! i))"
  have "length (filter ?P (rev (take i cs))) = length (filter ?P (take i cs))"
    by (simp add: rev_filter [symmetric])
  then show ?thesis
    by (simp add: nth_loop_count ordinal_def)
qed

lemma nth_loop_ordinal_Suc:
  "nth_loop lc (rev (take i cs)) (toLowerCase lc (nodeName (cs ! i))) (Suc 0) = ordinal lc cs i"
  using nth_loop_ordinal [of lc i cs] by simp

lemma path_loop_element:
  "nodeType (cs ! i) = ELEMENT_NODE \<Longrightarrow>
   path_loop lc ((cs ! i, rev (take i cs)) # up) path = path_loop lc up (level lc cs i # path)"
  by (simp add: Let_def nth_loop_ordinal_Suc level_def)

lemma resolve_from_levels:
  "element_path r h \<Longrightarrow>
   \<exists>c. resolve_from up r b h = Some c \<and>
       (\<forall>path. path_loop lc c path = path_loop lc ((r, b) # up) (levels lc r h @ path))"
proof (induction h arbitrary: up r b)
  case Nil
  then show ?case by simp
next
  case (Cons i "is")
  let ?cs = "childNodes r"
  from Cons.prems have i: "i < length ?cs" and el: "nodeType (?cs ! i) = ELEMENT_NODE"
    and rest: "element_path (?cs ! i) is"
    by simp_all
  from Cons.IH [OF rest, of "(r, b) # up" "rev (take i ?cs)"]
  obtain c where c: "resolve_from ((r, b) # up) (?cs ! i) (rev (take i ?cs)) is = Some c"
    and loop: "\<And>path. path_loop lc c path =
        path_loop lc ((?cs ! i, rev (take i ?cs)) # (r, b) # up) (levels lc (?cs ! i) is @ path)"
    by blast
  have "resolve_from up r b (i # is) = Some c"
    using i c by simp
  moreover have "path_loop lc c path = path_loop lc ((r, b) # up) (levels lc r (i # is) @ path)" for path
    using loop [of path] path_loop_element [OF el] by simp
  ultimately show ?case by blast
qed

lemma resolve_from_head:
  "resolve_from up r b h = Some c \<Longrightarrow> \<exists>pre rest. c = (the (node_at r h), pre) # rest \<and> node_at r h \<noteq> None"
  by (induction h arbitrary: up r b c) (auto split: if_splits)

lemma resolve_from_None:
  "resolve_from up r b h = None \<longleftrightarrow> node_at r h = None"
  by (induction h arbitrary: up r b) auto

lemma element_path_node_at:
  "element_path r h \<Longrightarrow> h \<noteq> [] \<Longrightarrow> \<exists>n. node_at r h = Some n \<and> nodeType n = ELEMENT_NODE"
proof (induction h arbitrary: r)
  case Nil
  then show ?case by simp
next
  case (Cons i "is")
  then show ?case by (cases "is") auto
qed

lemma tag_from_element_non_element:
  assumes "node_at (dom s) h = Some n" and "nodeType n \<noteq> ELEMENT_NODE"
  shows "tag_from_element s h = Inr None"
proof -
  from assms(1) have "resolve_from [] (dom s) [] h \<noteq> None"
    by (simp add: resolve_from_None)
  then obtain c where c: "resolve_from [] (dom s) [] h = Some c" by blast
  from resolve_from_head [OF c] assms(1) obtain pre rest where "c = (n, pre) # rest"
    by auto
  with assms(2) have "\<not> instanceof_Element c"
    by (simp add: instanceof_Element_def)
  with c show ?thesis
    by (simp add: tag_from_element_def execute_script_getPathTo_def resolve_def getPathTo_def)
qed

lemma tag_from_element_levels:
  assumes root: "nodeType (dom s) \<noteq> ELEMENT_NODE" and ne: "h \<noteq> []"
    and ep: "element_path (dom s) h"
  shows "tag_from_element s h = Inr (Some (join '' > '' (levels (unicode_lower s) (dom s) h)))"
proof -
  from resolve_from_levels [OF ep, of "[]" "[]" "unicode_lower s"]
  obtain c where c: "resolve_from [] (dom s) [] h = Some c"
    and loop: "\<And>path. path_loop (unicode_lower s) c path = path_loop (unicode_lower s) [(dom s, [])] (levels (unicode_lower s) (dom s) h @ path)"
    by blast
  from element_path_node_at [OF ep ne] obtain n
    where n: "node_at (dom s) h = Some n" "nodeType n = ELEMENT_NODE" by blast
  from resolve_from_head [OF c] n obtain pre rest where "c = (n, pre) # rest"
    by auto
  with n have inst: "instanceof_Element c"
    by (simp add: instanceof_Element_def)
  have "path_loop (unicode_lower s) c [] = Inr (levels (unicode_lower s) (dom s) h)"
    using loop [of "[]"] root by simp
  with c inst show ?thesis
    by (simp add: tag_from_element_def execute_script_getPathTo_def resolve_def getPathTo_def)
qed

section \<open>The loops of the enumerations\<close>

lemma get_inputs_loop_returns:
  "\<forall>e\<in>set es. script_returns s e \<Longrightarrow>
   get_inputs_loop s es tags lg =
     (Inr (tags @ tagged s es), lg @ map (Warn ''No tag for input %s'') (untagged s es))"
proof (induction es arbitrary: tags lg)
  case Nil
  then show ?case by (simp add: tagged_def untagged_def)
next
  case (Cons e es)
  from Cons.prems obtain v where v: "tag_from_element s e = Inr v"
    by (auto simp: script_returns_def split: sum.splits)
  from Cons.prems have rest: "\<forall>e\<in>set es. script_returns s e" by simp
  show ?case
  proof (cases "truthy v")
    case None
    with v have "tag_of s e = None" by (simp add: tag_of_def)
    with v None Cons.IH [OF rest] show ?thesis
      by (simp add: tagged_def untagged_def)
  next
    case (Some t)
    with v have "tag_of s e = Some t" by (simp add: tag_of_def)
    with v Some Cons.IH [OF rest] show ?thesis
      by (simp add: tagged_def untagged_def)
  qed
qed

lemma get_inputs_path:
  "get_inputs s form itype lg =
     get_inputs_loop s (elements_by_path s (inputs_path form itype)) [] lg"
  by (cases form; cases itype) (auto simp: get_inputs_def inputs_path_def truthy_def Let_def)

lemma get_inputs_form_irrelevant:
  "get_inputs s (Some f) itype lg = get_inputs s (Some g) itype lg"
  by (simp add: get_inputs_def)

lemma get_buttons_loop_filter:
  "get_buttons_loop s es tags lg = get_buttons_loop s (filter (shown s) es) tags lg"
  by (induction es arbitrary: tags lg) (auto simp: shown_def split: sum.splits option.splits)

lemma get_forms_loop_filter:
  "get_forms_loop s es tags lg = get_forms_loop s (filter (shown s) es) tags lg"
  by (induction es arbitrary: tags lg) (auto simp: shown_def split: sum.splits option.splits prod.splits)

lemma get_buttons_loop_returns:
  "\<forall>e\<in>set es. shown s e \<longrightarrow> script_returns s e \<Longrightarrow>
   get_buttons_loop s es tags lg =
     (Inr (tags @ tagged s (filter (shown s) es)),
      lg @ map (Warn ''No tag for element %s'') (untagged s (filter (shown s) es)))"
proof (induction es arbitrary: tags lg)
  case Nil
  then show ?case by (simp add: tagged_def untagged_def)
next
  case (Cons e es)
  from Cons.prems have rest: "\<forall>e\<in>set es. shown s e \<longrightarrow> script_returns s e" by simp
  show ?case
  proof (cases "shown s e")
    case False
    with Cons.IH [OF rest] show ?thesis
      by (auto simp: shown_def)
  next
    case True
    with Cons.prems obtain v where v: "tag_from_element s e = Inr v"
      by (auto simp: script_returns_def split: sum.splits)
    show ?thesis
    proof (cases "truthy v")
      case None
      with v have "tag_of s e = None" by (simp add: tag_of_def)
      with v None True Cons.IH [OF rest] show ?thesis
        by (simp add: tagged_def untagged_def shown_def)
    next
      case (Some t)
      with v have "tag_of s e = Some t" by (simp add: tag_of_def)
      with v Some True Cons.IH [OF rest] show ?thesis
        by (simp add: tagged_def untagged_def shown_def)
    qed
  qed
qed

lemma levels_names_ordinals:
  "levels lc r h =
     map2 selector_of (map (toLowerCase lc) (names_on_path r h)) (ordinals_on_path lc r h)"
  by (induction lc r h rule: levels.induct) (simp_all add: level_def selector_of_def)

lemma toLowerCase_ascii:
  "list_all (list_all is_ascii) names \<Longrightarrow> map (toLowerCase lc) names = map (map lower_char) names"
  by (induction names) (simp_all add: toLowerCase_def)

lemma length_ordinals_on_path: "length (ordinals_on_path lc r h) = length h"
  by (induction lc r h rule: ordinals_on_path.induct) simp_all

lemma levels_lower_case_names:
  "\<forall>name\<in>set (names_on_path r h). toLowerCase lc name = name \<Longrightarrow> levels lc r h = claimed_levels lc r h"
  by (induction lc r h rule: levels.induct) (simp_all add: level_def claimed_level_def)

lemma levels_snoc:
  "node_at r parent = Some p \<Longrightarrow> levels lc r (parent @ [i]) = levels lc r parent @ [level lc (childNodes p) i]"
  by (induction parent arbitrary: r) (auto split: if_splits)

lemma path_loop_grows:
  "path_loop lc c p = Inr q \<Longrightarrow>
   \<exists>new. q = new @ p \<and> (\<forall>x\<in>set new. x \<noteq> []) \<and> (instanceof_Element c \<longrightarrow> new \<noteq> [])"
proof (induction lc c p arbitrary: q rule: path_loop.induct)
  case (1 lc path)
  then show ?case by simp
next
  case (2 lc el preceding up path)
  show ?case
  proof (cases "nodeType el = ELEMENT_NODE")
    case False
    with "2.prems" show ?thesis by (simp add: instanceof_Element_def)
  next
    case True
    let ?sel = "toLowerCase lc (nodeName el) @ '':nth-of-type('' @
                string_of_nat (nth_loop lc preceding (toLowerCase lc (nodeName el)) 1) @ '')''"
    from True "2.prems" have "path_loop lc up (?sel # path) = Inr q"
      by (simp add: Let_def)
    from "2.IH" [OF True refl refl refl this]
    obtain new where "q = new @ ?sel # path" "\<forall>x\<in>set new. x \<noteq> []" by blast
    then have "q = (new @ [?sel]) @ path \<and> (\<forall>x\<in>set (new @ [?sel]). x \<noteq> []) \<and> new @ [?sel] \<noteq> []"
      by simp
    then show ?thesis by blast
  qed
qed

lemma join_not_empty: "xs \<noteq> [] \<Longrightarrow> \<forall>x\<in>set xs. x \<noteq> [] \<Longrightarrow> join sep xs \<noteq> []"
  by (induction sep xs rule: join.induct) simp_all

lemma tag_from_element_not_empty:
  "tag_from_element s e = Inr (Some t) \<Longrightarrow> t \<noteq> []"
proof -
  assume a: "tag_from_element s e = Inr (Some t)"
  then obtain c where c: "resolve (dom s) e = Some c" and g: "getPathTo (unicode_lower s) c = Inr (Some t)"
    by (auto simp: tag_from_element_def execute_script_getPathTo_def split: option.splits)
  from g have inst: "instanceof_Element c"
    by (auto simp: getPathTo_def split: if_splits)
  with g obtain q where q: "path_loop (unicode_lower s) c [] = Inr q" and t: "t = join '' > '' q"
    by (auto simp: getPathTo_def split: sum.splits)
  from path_loop_grows [OF q] inst have "q \<noteq> []" "\<forall>x\<in>set q. x \<noteq> []" by auto
  with t show ?thesis by (simp add: join_not_empty)
qed

section \<open>What the enumerations return\<close>

lemma tagged_member:
  "t \<in> set (tagged s es) \<longleftrightarrow> (\<exists>e\<in>set es. tag_of s e = Some t)"
  by (induction es) (auto simp: tagged_def split: option.splits)

lemma tag_of_Some:
  "tag_of s e = Some t \<longleftrightarrow> tag_from_element s e = Inr (Some t) \<and> t \<noteq> []"
  by (auto simp: tag_of_def truthy_def split: sum.splits option.splits if_splits)

lemma tag_of_Some_iff: "tag_of s e = Some t \<longleftrightarrow> tag_from_element s e = Inr (Some t)"
  using tag_from_element_not_empty [of s e t] by (auto simp: tag_of_Some)

lemma get_inputs_returns:
  assumes "answers_run s"
  shows "get_inputs s form itype lg =
     (Inr (tagged s (elements_by_path s (inputs_path form itype))),
      lg @ map (Warn ''No tag for input %s'')
             (untagged s (elements_by_path s (inputs_path form itype))))"
proof -
  from assms have "\<forall>e\<in>set (elements_by_path s (inputs_path form itype)). script_returns s e"
    by (simp add: answers_run_def)
  from get_inputs_loop_returns [OF this, of "[]" lg] show ?thesis
    by (simp add: get_inputs_path)
qed

lemma form_inputs_returns:
  assumes "answers_run s"
  shows "form_inputs s e lg = (Inr (inputs_of s e), lg @ inputs_warnings s e)"
  by (simp add: form_inputs_def and_then_def get_inputs_returns [OF assms]
      inputs_of_def inputs_warnings_def input_kinds_def)

lemma get_forms_loop_returns:
  assumes run: "answers_run s"
  shows "\<forall>e\<in>set es. shown s e \<longrightarrow> script_returns s e \<Longrightarrow>
     get_forms_loop s es tags lg =
       (Inr (fold (add_form s) (filter (shown s) es) tags),
        lg @ forms_warnings s (filter (shown s) es))"
proof (induction es arbitrary: tags lg)
  case Nil
  then show ?case by (simp add: forms_warnings_def)
next
  case (Cons e es)
  from Cons.prems have rest: "\<forall>e\<in>set es. shown s e \<longrightarrow> script_returns s e" by simp
  show ?case
  proof (cases "shown s e")
    case False
    with Cons.IH [OF rest] show ?thesis
      by (auto simp: shown_def)
  next
    case True
    with Cons.prems obtain v where v: "tag_from_element s e = Inr v"
      by (auto simp: script_returns_def split: sum.splits)
    show ?thesis
    proof (cases "truthy v")
      case None
      with v have "tag_of s e = None" by (simp add: tag_of_def)
      with v None True Cons.IH [OF rest] show ?thesis
        by (simp add: shown_def forms_warnings_def add_form_def)
    next
      case (Some t)
      with v have "tag_of s e = Some t" by (simp add: tag_of_def)
      with v Some True Cons.IH [OF rest] show ?thesis
        by (simp add: shown_def forms_warnings_def add_form_def form_inputs_returns [OF run])
    qed
  qed
qed

lemma keys_fold_add_form:
  "fst ` set (fold (add_form s) es tags) = fst ` set tags \<union> set (tagged s es)"
proof (induction es arbitrary: tags)
  case Nil
  then show ?case by (simp add: tagged_def)
next
  case (Cons e es)
  show ?case
  proof (cases "tag_of s e")
    case None
    with Cons.IH [of tags] show ?thesis
      by (simp add: add_form_def tagged_def)
  next
    case (Some t)
    with Cons.IH [of "AList.update t (inputs_of s e) tags"] show ?thesis
      by (auto simp: add_form_def tagged_def dom_update)
  qed
qed

lemma get_buttons_loop_only_shown:
  "get_buttons_loop s es tags lg = (Inr r, lg') \<Longrightarrow> k \<in> set r \<Longrightarrow>
   k \<in> set tags \<or> (\<exists>e\<in>set es. shown s e \<and> tag_from_element s e = Inr (Some k))"
proof (induction es arbitrary: tags lg)
  case Nil
  then show ?case by simp
next
  case (Cons e es)
  show ?case
  proof (cases "shown s e")
    case False
    with Cons.prems have "get_buttons_loop s es tags lg = (Inr r, lg')"
      by (auto simp: shown_def)
    from Cons.IH [OF this Cons.prems(2)] show ?thesis by auto
  next
    case True
    with Cons.prems(1) obtain v where v: "tag_from_element s e = Inr v"
      by (auto simp: shown_def split: sum.splits)
    show ?thesis
    proof (cases "truthy v")
      case None
      with v True Cons.prems(1)
      have "get_buttons_loop s es tags (lg @ [Warn ''No tag for element %s'' e]) = (Inr r, lg')"
        by (simp add: shown_def)
      from Cons.IH [OF this Cons.prems(2)] show ?thesis by auto
    next
      case (Some t)
      with v have t: "tag_from_element s e = Inr (Some t)"
        by (auto simp: truthy_def split: option.splits if_splits)
      from Some v True Cons.prems(1)
      have "get_buttons_loop s es (tags @ [t]) lg = (Inr r, lg')"
        by (simp add: shown_def)
      from Cons.IH [OF this Cons.prems(2)] t True show ?thesis by auto
    qed
  qed
qed

lemma get_forms_loop_only_shown:
  "get_forms_loop s es tags lg = (Inr d, lg') \<Longrightarrow> k \<in> fst ` set d \<Longrightarrow>
   k \<in> fst ` set tags \<or> (\<exists>e\<in>set es. shown s e \<and> tag_from_element s e = Inr (Some k))"
proof (induction es arbitrary: tags lg)
  case Nil
  then show ?case by simp
next
  case (Cons e es)
  show ?case
  proof (cases "shown s e")
    case False
    with Cons.prems have "get_forms_loop s es tags lg = (Inr d, lg')"
      by (auto simp: shown_def)
    from Cons.IH [OF this Cons.prems(2)] show ?thesis by auto
  next
    case True
    with Cons.prems(1) obtain v where v: "tag_from_element s e = Inr v"
      by (auto simp: shown_def split: sum.splits)
    show ?thesis
    proof (cases "truthy v")
      case None
      with v True Cons.prems(1)
      have "get_forms_loop s es tags (lg @ [Warn ''No tag for element %s'' e]) = (Inr d, lg')"
        by (simp add: shown_def)
      from Cons.IH [OF this Cons.prems(2)] show ?thesis by auto
    next
      case (Some t)
      with v have t: "tag_from_element s e = Inr (Some t)"
        by (auto simp: truthy_def split: option.splits if_splits)
      from Some v True Cons.prems(1)
      obtain inputs lg1 where "form_inputs s e lg = (Inr inputs, lg1)"
        and "get_forms_loop s es (AList.update t inputs tags) lg1 = (Inr d, lg')"
        by (auto simp: shown_def split: prod.splits sum.splits)
      from Cons.IH [OF this(2) Cons.prems(2)] t True show ?thesis
        by (auto simp: dom_update)
    qed
  qed
qed

lemma get_forms_filter:
  "get_forms s lg = get_forms_loop s (filter (shown s) (elements_by_path s ''//form'')) [] lg"
  by (simp add: get_forms_def get_forms_loop_filter [symmetric])

lemma get_buttons_path: 
  "get_buttons s in_form lg = get_buttons_loop s (elements_by_path s buttons_path) [] lg"
  by (simp add: get_buttons_def buttons_path_def)

lemma get_buttons_filter:
  "get_buttons s in_form lg =
     get_buttons_loop s (filter (shown s) (elements_by_path s buttons_path)) [] lg"
  by (simp add: get_buttons_path get_buttons_loop_filter [symmetric])

lemma get_forms_one_visible:
  assumes forms: "elements_by_path s ''//form'' = [hidden, visible] \<or>
                  elements_by_path s ''//form'' = [visible, hidden]"
    and hid: "\<not> shown s hidden" and vis: "shown s visible"
    and tag: "tag_from_element s visible = Inr (Some t)"
    and run: "answers_run s"
  shows "get_forms s lg = (Inr [(t, inputs_of s visible)], lg @ inputs_warnings s visible)"
proof -
  from forms hid vis have f: "filter (shown s) (elements_by_path s ''//form'') = [visible]"
    by auto
  from tag have ret: "\<forall>e\<in>set [visible]. shown s e \<longrightarrow> script_returns s e"
    by (simp add: script_returns_def)
  from tag have "tag_of s visible = Some t" by (simp add: tag_of_Some_iff)
  with get_forms_loop_returns [OF run ret, of "[]" lg] vis show ?thesis
    by (simp add: get_forms_filter f add_form_def forms_warnings_def)
qed

section \<open>The example page\<close>

lemma example_answers_run: "answers_run example_session"
  by (simp add: answers_run_def script_returns_def example_eval script_eval)

lemma stray_answers_run: "answers_run stray_session"
  by (simp add: answers_run_def script_returns_def stray_session_def stray_answers_def example_eval script_eval)

lemma example_form_tag:
  "tag_from_element example_session [0, 1, 2] =
     Inr (Some ''html:nth-of-type(1) > body:nth-of-type(1) > form:nth-of-type(2)'')"
  by (simp add: script_eval example_eval)

section \<open>Claims about tag_from_element\<close>

text \<open>
  C1, as amended. For an element of a page whose root is not an element (a document), every
  level of the returned path uses the name of the node as \<^verbatim>\<open>toLowerCase()\<close> converts
  it, not the name as it is found in the DOM; the levels are those of the nodes on the way
  from the root down to the element, in that order. For names of ASCII characters the
  converted name is the name with A to Z replaced by a to z, so \<^verbatim>\<open>BODY\<close> appears as
  \<^verbatim>\<open>body\<close>. The case of a name is preserved exactly when the conversion leaves the name
  as it is: then the path is the one with the names as they are found. The script puts
  \<^verbatim>\<open>toLowerCase()\<close> on every \<^verbatim>\<open>nodeName\<close>; what it no longer does is convert the
  joined path a second time.
\<close>

theorem tag_from_element_lower_case_names:
  assumes "nodeType (dom s) \<noteq> ELEMENT_NODE" and "element \<noteq> []"
    and "element_path (dom s) element"
  shows "(\<exists>ordinals. length ordinals = length element \<and>
            tag_from_element s element =
              Inr (Some (join '' > ''
                (map2 selector_of
                   (map (toLowerCase (unicode_lower s)) (names_on_path (dom s) element))
                   ordinals)))) \<and>
         (list_all (list_all is_ascii) (names_on_path (dom s) element) \<longrightarrow>
            (\<exists>ordinals. length ordinals = length element \<and>
               tag_from_element s element =
                 Inr (Some (join '' > ''
                   (map2 selector_of
                      (map (map lower_char) (names_on_path (dom s) element))
                      ordinals))))) \<and>
         ((\<forall>name\<in>set (names_on_path (dom s) element).
              toLowerCase (unicode_lower s) name = name) \<longrightarrow>
            tag_from_element s element =
              Inr (Some (join '' > '' (claimed_levels (unicode_lower s) (dom s) element))))"
proof (intro conjI impI)
  let ?names = "names_on_path (dom s) element"
  let ?ords = "ordinals_on_path (unicode_lower s) (dom s) element"
  have tag: "tag_from_element s element =
      Inr (Some (join '' > '' (levels (unicode_lower s) (dom s) element)))"
    using assms by (rule tag_from_element_levels)
  have len: "length ?ords = length element"
    by (rule length_ordinals_on_path)
  have lower: "tag_from_element s element =
      Inr (Some (join '' > '' (map2 selector_of (map (toLowerCase (unicode_lower s)) ?names) ?ords)))"
    using tag by (simp only: levels_names_ordinals)
  from len lower
  show "\<exists>ordinals. length ordinals = length element \<and>
            tag_from_element s element =
              Inr (Some (join '' > ''
                (map2 selector_of (map (toLowerCase (unicode_lower s)) ?names) ordinals)))"
    by blast
  {
    assume "list_all (list_all is_ascii) ?names"
    then have "map (toLowerCase (unicode_lower s)) ?names = map (map lower_char) ?names"
      by (rule toLowerCase_ascii)
    with lower have "tag_from_element s element =
        Inr (Some (join '' > '' (map2 selector_of (map (map lower_char) ?names) ?ords)))"
      by simp
    with len
    show "\<exists>ordinals. length ordinals = length element \<and>
               tag_from_element s element =
                 Inr (Some (join '' > ''
                   (map2 selector_of (map (map lower_char) ?names) ordinals)))"
      by blast
  }
  assume "\<forall>name\<in>set ?names. toLowerCase (unicode_lower s) name = name"
  then show "tag_from_element s element =
      Inr (Some (join '' > '' (claimed_levels (unicode_lower s) (dom s) element)))"
    using tag by (simp add: levels_lower_case_names)
qed

theorem tag_from_element_lower_case_names_witness:
  "\<exists>ordinals. length ordinals = 3 \<and>
     tag_from_element example_session [0, 1, 4] =
       Inr (Some (join '' > '' (map2 selector_of [''html'', ''body'', ''div''] ordinals)))"
proof -
  have root: "nodeType (dom example_session) \<noteq> ELEMENT_NODE"
    by (simp add: example_eval ELEMENT_NODE_def DOCUMENT_NODE_def)
  have ne: "[0, 1, 4] \<noteq> ([]::handle)" by simp
  have ep: "element_path (dom example_session) [0, 1, 4]"
    by (simp add: example_eval)
  have names: "names_on_path (dom example_session) [0, 1, 4] = [''HTML'', ''BODY'', ''DIV'']"
    by (simp add: example_eval)
  have ascii: "list_all (list_all is_ascii) [''HTML'', ''BODY'', ''DIV'']"
    by (simp add: is_ascii_def)
  have low: "map (map lower_char) [''HTML'', ''BODY'', ''DIV''] = [''html'', ''body'', ''div'']"
    by (simp add: lower_char_def)
  from tag_from_element_lower_case_names [OF root ne ep, THEN conjunct2, THEN conjunct1]
  have "list_all (list_all is_ascii) [''HTML'', ''BODY'', ''DIV''] \<longrightarrow>
    (\<exists>ordinals. length ordinals = length [0::nat, 1, 4] \<and>
       tag_from_element example_session [0, 1, 4] =
         Inr (Some (join '' > '' (map2 selector_of [''html'', ''body'', ''div''] ordinals))))"
    unfolding names low .
  with ascii obtain ordinals where len: "length ordinals = length [0::nat, 1, 4]"
    and tag: "tag_from_element example_session [0, 1, 4] =
       Inr (Some (join '' > '' (map2 selector_of [''html'', ''body'', ''div''] ordinals)))"
    by blast
  from len have "length ordinals = 3" by simp
  with tag show ?thesis by blast
qed

text \<open>
  C1 as stated, with the case of the names preserved, fails on the \<^verbatim>\<open>BODY\<close> element of
  the example page: the script returns
  \<^verbatim>\<open>html:nth-of-type(1) > body:nth-of-type(1)\<close>, not
  \<^verbatim>\<open>HTML:nth-of-type(1) > BODY:nth-of-type(1)\<close>.
\<close>

theorem tag_from_element_case_counterexample:
  "tag_from_element example_session [0, 1] \<noteq>
     Inr (Some (join '' > '' (claimed_levels (unicode_lower example_session) (dom example_session) [0, 1])))"
  by (simp add: script_eval example_eval claimed_level_def ordinal_def)

text \<open>
  C2. For an element of a page whose root is not an element, \<^verbatim>\<open>tag_from_element\<close>
  returns the levels of the nodes from the root down to the element, joined with
  \<^verbatim>\<open>" > "\<close>; a level is the lower-cased name of the node, \<^verbatim>\<open>:nth-of-type(\<close>, the
  ordinal of the node in decimal and \<^verbatim>\<open>)\<close>, and the ordinal is one more than the number
  of preceding sibling elements with the same lower-cased name. In particular, when the
  element is a \<^verbatim>\<open>div\<close> and \<open>k - 1\<close> of its preceding siblings are \<^verbatim>\<open>div\<close> elements,
  the last level of the path is \<^verbatim>\<open>div:nth-of-type(k)\<close>.
\<close>

theorem tag_from_element_nth_of_type_path:
  assumes "nodeType (dom s) \<noteq> ELEMENT_NODE" and "element \<noteq> []"
    and "element_path (dom s) element"
  shows "tag_from_element s element = Inr (Some (join '' > '' (levels (unicode_lower s) (dom s) element))) \<and>
         (\<forall>parent i p. element = parent @ [i] \<and> node_at (dom s) parent = Some p \<and>
              toLowerCase (unicode_lower s) (nodeName (childNodes p ! i)) = ''div'' \<longrightarrow>
            (\<exists>above. tag_from_element s element =
               Inr (Some (join '' > '' (above @
                 [''div:nth-of-type('' @
                  string_of_nat (Suc (length (filter
                    (\<lambda>sib. nodeType sib = ELEMENT_NODE \<and> toLowerCase (unicode_lower s) (nodeName sib) = ''div'')
                    (take i (childNodes p))))) @ '')''])))))"
proof (intro conjI allI impI)
  show tag: "tag_from_element s element = Inr (Some (join '' > '' (levels (unicode_lower s) (dom s) element)))"
    using assms by (rule tag_from_element_levels)
  fix parent i p
  assume h: "element = parent @ [i] \<and> node_at (dom s) parent = Some p \<and>
              toLowerCase (unicode_lower s) (nodeName (childNodes p ! i)) = ''div''"
  then have "levels (unicode_lower s) (dom s) element = levels (unicode_lower s) (dom s) parent @ [level (unicode_lower s) (childNodes p) i]"
    by (simp add: levels_snoc)
  moreover have "level (unicode_lower s) (childNodes p) i = ''div:nth-of-type('' @
                  string_of_nat (Suc (length (filter
                    (\<lambda>sib. nodeType sib = ELEMENT_NODE \<and> toLowerCase (unicode_lower s) (nodeName sib) = ''div'')
                    (take i (childNodes p))))) @ '')''"
    using h by (simp add: level_def ordinal_def)
  ultimately show "\<exists>above. tag_from_element s element =
               Inr (Some (join '' > '' (above @
                 [''div:nth-of-type('' @
                  string_of_nat (Suc (length (filter
                    (\<lambda>sib. nodeType sib = ELEMENT_NODE \<and> toLowerCase (unicode_lower s) (nodeName sib) = ''div'')
                    (take i (childNodes p))))) @ '')''])))"
    using tag by auto
qed

theorem tag_from_element_nth_of_type_path_witness:
  "tag_from_element example_session [0, 1, 4] =
     Inr (Some ''html:nth-of-type(1) > body:nth-of-type(1) > div:nth-of-type(2)'') \<and>
   (\<exists>above. tag_from_element example_session [0, 1, 4] =
      Inr (Some (join '' > '' (above @ [''div:nth-of-type(2)'']))))"
proof -
  have root: "nodeType (dom example_session) \<noteq> ELEMENT_NODE"
    by (simp add: example_eval ELEMENT_NODE_def DOCUMENT_NODE_def)
  have ne: "[0, 1, 4] \<noteq> ([]::handle)" by simp
  have ep: "element_path (dom example_session) [0, 1, 4]"
    by (simp add: example_eval)
  note path = tag_from_element_nth_of_type_path [OF root ne ep]
  have lv: "levels (unicode_lower example_session) (dom example_session) [0, 1, 4] =
      [''html:nth-of-type(1)'', ''body:nth-of-type(1)'', ''div:nth-of-type(2)'']"
    by (simp add: example_eval level_def ordinal_def ELEMENT_NODE_def TEXT_NODE_def
        toLowerCase_def is_ascii_def lower_char_def string_of_nat.simps digit_char_def)
  from path have "tag_from_element example_session [0, 1, 4] =
      Inr (Some (join '' > '' (levels (unicode_lower example_session) (dom example_session) [0, 1, 4])))"
    by (rule conjunct1)
  then have first: "tag_from_element example_session [0, 1, 4] =
     Inr (Some ''html:nth-of-type(1) > body:nth-of-type(1) > div:nth-of-type(2)'')"
    unfolding lv by simp
  let ?body = "Node ELEMENT_NODE ''BODY''
             [Node ELEMENT_NODE ''FORM'' [Node ELEMENT_NODE ''INPUT'' []],
              Node TEXT_NODE ''#text'' [],
              Node ELEMENT_NODE ''FORM''
                [Node ELEMENT_NODE ''INPUT'' [],
                 Node ELEMENT_NODE ''SELECT'' [],
                 Node ELEMENT_NODE ''INPUT'' [],
                 Node ELEMENT_NODE ''BUTTON'' []],
              Node ELEMENT_NODE ''DIV'' [],
              Node ELEMENT_NODE ''DIV'' [],
              Node ELEMENT_NODE ''DIV'' [],
              Node ELEMENT_NODE ''TABLE'' [Node ELEMENT_NODE ''A'' []]]"
  have at: "node_at (dom example_session) [0, 1] = Some ?body"
    by (simp add: example_eval)
  have dv: "toLowerCase (unicode_lower example_session) (nodeName (childNodes ?body ! 4)) = ''div''"
    by (simp add: toLowerCase_def is_ascii_def lower_char_def)
  have cnt: "Suc (length (filter
       (\<lambda>sib. nodeType sib = ELEMENT_NODE \<and> toLowerCase (unicode_lower example_session) (nodeName sib) = ''div'')
       (take 4 (childNodes ?body)))) = 2"
    by (simp add: ELEMENT_NODE_def TEXT_NODE_def toLowerCase_def is_ascii_def lower_char_def)
  have two: "string_of_nat 2 = ''2''"
    by (simp add: string_of_nat.simps digit_char_def)
  have split: "[0, 1, 4] = [0, 1] @ [4::nat]" by simp
  from path [THEN conjunct2, rule_format, of "[0, 1]" 4 ?body] split at dv
  have "\<exists>above. tag_from_element example_session [0, 1, 4] =
      Inr (Some (join '' > '' (above @ [''div:nth-of-type('' @ string_of_nat
        (Suc (length (filter
           (\<lambda>sib. nodeType sib = ELEMENT_NODE \<and> toLowerCase (unicode_lower example_session) (nodeName sib) = ''div'')
           (take 4 (childNodes ?body))))) @ '')''])))"
    by blast
  then have "\<exists>above. tag_from_element example_session [0, 1, 4] =
      Inr (Some (join '' > '' (above @ [''div:nth-of-type('' @ string_of_nat 2 @ '')''])))"
    unfolding cnt .
  with first two show ?thesis by simp
qed

text \<open>
  C3. For every input that is not an element node (a text node, the document),
  \<^verbatim>\<open>tag_from_element\<close> returns the absent value \<^verbatim>\<open>None\<close>: no path string and no
  exception.
\<close>

theorem tag_from_element_not_element:
  assumes "node_at (dom s) element = Some n" and "nodeType n \<noteq> ELEMENT_NODE"
  shows "tag_from_element s element = Inr None"
  using assms by (rule tag_from_element_non_element)

theorem tag_from_element_not_element_witness:
  "node_at (dom example_session) [0, 1, 1] = Some (Node TEXT_NODE ''#text'' []) \<and>
   nodeType (Node TEXT_NODE ''#text'' []) \<noteq> ELEMENT_NODE \<and>
   tag_from_element example_session [0, 1, 1] = Inr None"
proof -
  have at: "node_at (dom example_session) [0, 1, 1] = Some (Node TEXT_NODE ''#text'' [])"
    by (simp add: example_eval)
  have ty: "nodeType (Node TEXT_NODE ''#text'' []) \<noteq> ELEMENT_NODE"
    by (simp add: TEXT_NODE_def ELEMENT_NODE_def)
  from tag_from_element_not_element [OF at ty] at ty show ?thesis by simp
qed

section \<open>Claims about get_inputs\<close>

text \<open>
  C4. The claim says that with a form scope only descendants of that form are matched.
  \<^verbatim>\<open>get_inputs\<close> does put a dot in front of the path, but it stores the form in a
  variable that nothing reads and calls \<^verbatim>\<open>self.elements_by_path(x_path)\<close> without it.
  On the example page the text inputs asked for the second form include the input of the
  first form; and whatever \<^verbatim>\<open>elements_by_path\<close> answers, the two forms of the page
  get the same inputs, although they have none in common.
\<close>

theorem get_inputs_form_scope_lost:
  "get_inputs example_session (Some [0, 1, 2]) (Some ''text'') [] =
     (Inr [''html:nth-of-type(1) > body:nth-of-type(1) > form:nth-of-type(1) > input:nth-of-type(1)'',
           ''html:nth-of-type(1) > body:nth-of-type(1) > form:nth-of-type(2) > input:nth-of-type(1)''],
      []) \<and>
   (\<forall>answers.
      get_inputs (example_session\<lparr>elements_by_path := answers\<rparr>) (Some [0, 1, 0]) (Some ''text'') [] =
      get_inputs (example_session\<lparr>elements_by_path := answers\<rparr>) (Some [0, 1, 2]) (Some ''text'') [])"
proof (intro conjI allI)
  show "get_inputs example_session (Some [0, 1, 2]) (Some ''text'') [] =
     (Inr [''html:nth-of-type(1) > body:nth-of-type(1) > form:nth-of-type(1) > input:nth-of-type(1)'',
           ''html:nth-of-type(1) > body:nth-of-type(1) > form:nth-of-type(2) > input:nth-of-type(1)''],
      [])"
    by (simp add: get_inputs_def truthy_def apostrophe_def script_eval example_eval)
  fix answers
  show "get_inputs (example_session\<lparr>elements_by_path := answers\<rparr>) (Some [0, 1, 0]) (Some ''text'') [] =
      get_inputs (example_session\<lparr>elements_by_path := answers\<rparr>) (Some [0, 1, 2]) (Some ''text'') []"
    by (rule get_inputs_form_irrelevant)
qed

section \<open>Claims about get_forms and get_buttons\<close>

text \<open>
  C5. In \<^verbatim>\<open>get_forms\<close> and in \<^verbatim>\<open>get_buttons\<close> an element that is not displayed or
  not enabled contributes nothing: the call returns, and logs, what its loop does on the
  displayed and enabled elements of the query alone. So every key of the mapping of
  \<^verbatim>\<open>get_forms\<close> and every tag of \<^verbatim>\<open>get_buttons\<close> is the tag of a queried element
  that is displayed and enabled. On a page with one hidden form and one visible form, in
  either order, \<^verbatim>\<open>get_forms\<close> returns a mapping with exactly one key, the tag of the
  visible form.
\<close>

theorem hidden_or_disabled_elements_are_skipped:
  "get_forms s lg = get_forms_loop s (filter (shown s) (elements_by_path s ''//form'')) [] lg \<and>
   get_buttons s in_form lg =
     get_buttons_loop s (filter (shown s) (elements_by_path s buttons_path)) [] lg \<and>
   (\<forall>d lg'. get_forms s lg = (Inr d, lg') \<longrightarrow>
      (\<forall>k\<in>fst ` set d. \<exists>e\<in>set (elements_by_path s ''//form'').
         is_displayed s e \<and> is_enabled s e \<and> tag_from_element s e = Inr (Some k))) \<and>
   (\<forall>tags lg'. get_buttons s in_form lg = (Inr tags, lg') \<longrightarrow>
      (\<forall>k\<in>set tags. \<exists>e\<in>set (elements_by_path s buttons_path).
         is_displayed s e \<and> is_enabled s e \<and> tag_from_element s e = Inr (Some k))) \<and>
   (\<forall>hidden visible t.
      (elements_by_path s ''//form'' = [hidden, visible] \<or>
       elements_by_path s ''//form'' = [visible, hidden]) \<and>
      \<not> shown s hidden \<and> shown s visible \<and>
      tag_from_element s visible = Inr (Some t) \<and> answers_run s \<longrightarrow>
      (\<exists>inputs lg'. get_forms s lg = (Inr [(t, inputs)], lg')))"
proof (intro conjI allI impI ballI)
  show "get_forms s lg = get_forms_loop s (filter (shown s) (elements_by_path s ''//form'')) [] lg"
    by (rule get_forms_filter)
  show "get_buttons s in_form lg =
     get_buttons_loop s (filter (shown s) (elements_by_path s buttons_path)) [] lg"
    by (rule get_buttons_filter)
next
  fix d lg' k
  assume "get_forms s lg = (Inr d, lg')" and k: "k \<in> fst ` set d"
  then have "get_forms_loop s (elements_by_path s ''//form'') [] lg = (Inr d, lg')"
    by (simp add: get_forms_def)
  from get_forms_loop_only_shown [OF this k]
  show "\<exists>e\<in>set (elements_by_path s ''//form'').
         is_displayed s e \<and> is_enabled s e \<and> tag_from_element s e = Inr (Some k)"
    by (auto simp: shown_def)
next
  fix tags lg' k
  assume "get_buttons s in_form lg = (Inr tags, lg')" and k: "k \<in> set tags"
  then have "get_buttons_loop s (elements_by_path s buttons_path) [] lg = (Inr tags, lg')"
    by (simp add: get_buttons_path)
  from get_buttons_loop_only_shown [OF this k]
  show "\<exists>e\<in>set (elements_by_path s buttons_path).
         is_displayed s e \<and> is_enabled s e \<and> tag_from_element s e = Inr (Some k)"
    by (auto simp: shown_def)
next
  fix hidden visible t
  assume "(elements_by_path s ''//form'' = [hidden, visible] \<or>
       elements_by_path s ''//form'' = [visible, hidden]) \<and>
      \<not> shown s hidden \<and> shown s visible \<and>
      tag_from_element s visible = Inr (Some t) \<and> answers_run s"
  then have "get_forms s lg = (Inr [(t, inputs_of s visible)], lg @ inputs_warnings s visible)"
    by (intro get_forms_one_visible [of s hidden visible t lg]) simp_all
  then show "\<exists>inputs lg'. get_forms s lg = (Inr [(t, inputs)], lg')"
    by blast
qed

theorem hidden_or_disabled_elements_are_skipped_witness:
  "\<exists>inputs lg'. get_forms example_session [] =
     (Inr [(''html:nth-of-type(1) > body:nth-of-type(1) > form:nth-of-type(2)'', inputs)], lg')"
proof -
  have forms: "elements_by_path example_session ''//form'' = [[0, 1, 0], [0, 1, 2]]"
    by (simp add: example_eval)
  have hid: "\<not> shown example_session [0, 1, 0]"
    by (simp add: shown_def example_session_def)
  have vis: "shown example_session [0, 1, 2]"
    by (simp add: shown_def example_session_def)
  from hidden_or_disabled_elements_are_skipped [of example_session "[]" False,
      THEN conjunct2, THEN conjunct2, THEN conjunct2, THEN conjunct2, rule_format,
      of "[0, 1, 0]" "[0, 1, 2]" "''html:nth-of-type(1) > body:nth-of-type(1) > form:nth-of-type(2)''"]
    forms hid vis example_form_tag example_answers_run
  show ?thesis by blast
qed

text \<open>
  C6. \<^verbatim>\<open>get_forms\<close> stores under the tag of a form four sequences, the results of
  \<^verbatim>\<open>get_inputs\<close> called with that form for the kinds \<^verbatim>\<open>text\<close>, \<^verbatim>\<open>select\<close>,
  \<^verbatim>\<open>checkbox\<close> and \<^verbatim>\<open>date\<close> in this order; but the calls are not scoped to the
  form, because \<^verbatim>\<open>get_inputs\<close> loses it (C4). On the example page the text inputs
  stored under the tag of the visible form include the input of the hidden form; and
  whatever \<^verbatim>\<open>elements_by_path\<close> answers, the four sequences are the same for the two
  forms of the page, which have no input in common.
\<close>

theorem get_forms_lists_inputs_of_other_form:
  "get_forms example_session [] =
     (Inr [(''html:nth-of-type(1) > body:nth-of-type(1) > form:nth-of-type(2)'',
            [[''html:nth-of-type(1) > body:nth-of-type(1) > form:nth-of-type(1) > input:nth-of-type(1)'',
              ''html:nth-of-type(1) > body:nth-of-type(1) > form:nth-of-type(2) > input:nth-of-type(1)''],
             [''html:nth-of-type(1) > body:nth-of-type(1) > form:nth-of-type(2) > select:nth-of-type(1)''],
             [''html:nth-of-type(1) > body:nth-of-type(1) > form:nth-of-type(2) > input:nth-of-type(2)''],
             []])],
      []) \<and>
   (\<forall>answers lg.
      form_inputs (example_session\<lparr>elements_by_path := answers\<rparr>) [0, 1, 0] lg =
      form_inputs (example_session\<lparr>elements_by_path := answers\<rparr>) [0, 1, 2] lg)"
proof (intro conjI allI)
  show "get_forms example_session [] =
     (Inr [(''html:nth-of-type(1) > body:nth-of-type(1) > form:nth-of-type(2)'',
            [[''html:nth-of-type(1) > body:nth-of-type(1) > form:nth-of-type(1) > input:nth-of-type(1)'',
              ''html:nth-of-type(1) > body:nth-of-type(1) > form:nth-of-type(2) > input:nth-of-type(1)''],
             [''html:nth-of-type(1) > body:nth-of-type(1) > form:nth-of-type(2) > select:nth-of-type(1)''],
             [''html:nth-of-type(1) > body:nth-of-type(1) > form:nth-of-type(2) > input:nth-of-type(2)''],
             []])],
      [])"
    by (simp add: get_forms_def form_inputs_def and_then_def get_inputs_def truthy_def
        apostrophe_def script_eval example_eval)
  fix answers lg
  show "form_inputs (example_session\<lparr>elements_by_path := answers\<rparr>) [0, 1, 0] lg =
      form_inputs (example_session\<lparr>elements_by_path := answers\<rparr>) [0, 1, 2] lg"
    by (simp add: form_inputs_def get_inputs_def)
qed

text \<open>
  C7. When no call of the script raises, each of the three enumerations runs through all
  the elements of its query: \<^verbatim>\<open>get_inputs\<close> and \<^verbatim>\<open>get_buttons\<close> return the tags of
  the elements that have one, in the order of the query, and the keys of \<^verbatim>\<open>get_forms\<close>
  are the tags of the forms that have one; an element without a tag (the script returned
  \<^verbatim>\<open>None\<close>) is not in the result and leaves one warning in the log, and the elements
  after it are processed as before.
\<close>

theorem absent_tag_is_skipped_with_a_warning:
  assumes run: "answers_run s"
  shows "get_inputs s form itype lg =
           (Inr (tagged s (elements_by_path s (inputs_path form itype))),
            lg @ map (Warn ''No tag for input %s'')
                   (untagged s (elements_by_path s (inputs_path form itype)))) \<and>
         get_buttons s in_form lg =
           (Inr (tagged s (filter (shown s) (elements_by_path s buttons_path))),
            lg @ map (Warn ''No tag for element %s'')
                   (untagged s (filter (shown s) (elements_by_path s buttons_path)))) \<and>
         (\<exists>d. get_forms s lg =
                 (Inr d, lg @ forms_warnings s (filter (shown s) (elements_by_path s ''//form''))) \<and>
               fst ` set d = set (tagged s (filter (shown s) (elements_by_path s ''//form''))))"
proof (intro conjI)
  show "get_inputs s form itype lg =
           (Inr (tagged s (elements_by_path s (inputs_path form itype))),
            lg @ map (Warn ''No tag for input %s'')
                   (untagged s (elements_by_path s (inputs_path form itype))))"
    using run by (rule get_inputs_returns)
  from run have "\<forall>e\<in>set (elements_by_path s buttons_path). shown s e \<longrightarrow> script_returns s e"
    by (simp add: answers_run_def)
  from get_buttons_loop_returns [OF this, of "[]" lg]
  show "get_buttons s in_form lg =
           (Inr (tagged s (filter (shown s) (elements_by_path s buttons_path))),
            lg @ map (Warn ''No tag for element %s'')
                   (untagged s (filter (shown s) (elements_by_path s buttons_path))))"
    by (simp add: get_buttons_path)
  from run have "\<forall>e\<in>set (elements_by_path s ''//form''). shown s e \<longrightarrow> script_returns s e"
    by (simp add: answers_run_def)
  from get_forms_loop_returns [OF run this, of "[]" lg]
  show "\<exists>d. get_forms s lg =
                 (Inr d, lg @ forms_warnings s (filter (shown s) (elements_by_path s ''//form''))) \<and>
               fst ` set d = set (tagged s (filter (shown s) (elements_by_path s ''//form'')))"
    by (simp add: get_forms_def keys_fold_add_form)
qed

theorem absent_tag_is_skipped_with_a_warning_witness:
  "get_inputs stray_session None None [] =
     (Inr [''html:nth-of-type(1) > body:nth-of-type(1) > form:nth-of-type(1) > input:nth-of-type(1)'',
           ''html:nth-of-type(1) > body:nth-of-type(1) > form:nth-of-type(2) > input:nth-of-type(1)'',
           ''html:nth-of-type(1) > body:nth-of-type(1) > form:nth-of-type(2) > input:nth-of-type(2)''],
      [Warn ''No tag for input %s'' [0, 1, 1]]) \<and>
   get_buttons stray_session False [] =
     (Inr [''html:nth-of-type(1) > body:nth-of-type(1) > form:nth-of-type(2) > button:nth-of-type(1)'',
           ''html:nth-of-type(1) > body:nth-of-type(1) > table:nth-of-type(1) > a:nth-of-type(1)''],
      [Warn ''No tag for element %s'' [0, 1, 1]])"
proof -
  note fact = absent_tag_is_skipped_with_a_warning [OF stray_answers_run, of None None "[]" False]
  have it: "tagged stray_session (elements_by_path stray_session (inputs_path None None)) =
      [''html:nth-of-type(1) > body:nth-of-type(1) > form:nth-of-type(1) > input:nth-of-type(1)'',
       ''html:nth-of-type(1) > body:nth-of-type(1) > form:nth-of-type(2) > input:nth-of-type(1)'',
       ''html:nth-of-type(1) > body:nth-of-type(1) > form:nth-of-type(2) > input:nth-of-type(2)'']"
    by (simp add: spec_eval stray_session_def stray_answers_def script_eval example_eval)
  have iu: "untagged stray_session (elements_by_path stray_session (inputs_path None None)) =
      [[0, 1, 1]]"
    by (simp add: spec_eval stray_session_def stray_answers_def script_eval example_eval)
  have bt: "tagged stray_session
        (filter (shown stray_session) (elements_by_path stray_session buttons_path)) =
      [''html:nth-of-type(1) > body:nth-of-type(1) > form:nth-of-type(2) > button:nth-of-type(1)'',
       ''html:nth-of-type(1) > body:nth-of-type(1) > table:nth-of-type(1) > a:nth-of-type(1)'']"
    by (simp add: spec_eval stray_session_def stray_answers_def script_eval example_eval)
  have bu: "untagged stray_session
        (filter (shown stray_session) (elements_by_path stray_session buttons_path)) = [[0, 1, 1]]"
    by (simp add: spec_eval stray_session_def stray_answers_def script_eval example_eval)
  from fact [THEN conjunct1] have "get_inputs stray_session None None [] =
     (Inr [''html:nth-of-type(1) > body:nth-of-type(1) > form:nth-of-type(1) > input:nth-of-type(1)'',
           ''html:nth-of-type(1) > body:nth-of-type(1) > form:nth-of-type(2) > input:nth-of-type(1)'',
           ''html:nth-of-type(1) > body:nth-of-type(1) > form:nth-of-type(2) > input:nth-of-type(2)''],
      [Warn ''No tag for input %s'' [0, 1, 1]])"
    unfolding it iu by simp
  moreover from fact [THEN conjunct2, THEN conjunct1] have "get_buttons stray_session False [] =
     (Inr [''html:nth-of-type(1) > body:nth-of-type(1) > form:nth-of-type(2) > button:nth-of-type(1)'',
           ''html:nth-of-type(1) > body:nth-of-type(1) > table:nth-of-type(1) > a:nth-of-type(1)''],
      [Warn ''No tag for element %s'' [0, 1, 1]])"
    unfolding bt bu by simp
  ultimately show ?thesis by (rule conjI)
qed

text \<open>
  C8. \<^verbatim>\<open>get_buttons\<close> makes one query, the union of the five paths
  \<^verbatim>\<open>//form//a\<close>, \<^verbatim>\<open>//button\<close>, \<^verbatim>\<open>//input[@type='button']\<close>,
  \<^verbatim>\<open>//input[@type='submit']\<close> and \<^verbatim>\<open>//table//a\<close>, and returns the tags of the
  elements of the answer that are displayed and enabled and have a tag, in the order of
  the answer.
\<close>

theorem get_buttons_query_and_order:
  assumes "\<forall>e\<in>set (elements_by_path s
      ''//form//a|//button|//input[@type='button']|//input[@type='submit']|//table//a'').
        is_displayed s e \<and> is_enabled s e \<longrightarrow> script_returns s e"
  shows "fst (get_buttons s in_form lg) =
     Inr (map (\<lambda>e. the (tag_of s e))
            (filter (\<lambda>e. is_displayed s e \<and> is_enabled s e \<and> tag_of s e \<noteq> None)
               (elements_by_path s
      ''//form//a|//button|//input[@type='button']|//input[@type='submit']|//table//a'')))"
proof -
  from assms have "\<forall>e\<in>set (elements_by_path s buttons_path). shown s e \<longrightarrow> script_returns s e"
    by (simp add: buttons_path_def shown_def)
  from get_buttons_loop_returns [OF this, of "[]" lg]
  have "fst (get_buttons s in_form lg) =
      Inr (tagged s (filter (shown s) (elements_by_path s buttons_path)))"
    by (simp add: get_buttons_path)
  also have "tagged s (filter (shown s) (elements_by_path s buttons_path)) =
      map (\<lambda>e. the (tag_of s e))
        (filter (\<lambda>e. is_displayed s e \<and> is_enabled s e \<and> tag_of s e \<noteq> None)
           (elements_by_path s buttons_path))"
    by (simp add: tagged_def map_filter_def shown_def comp_def conj_commute conj_left_commute)
  finally show ?thesis by (simp add: buttons_path_def)
qed

theorem get_buttons_query_and_order_witness:
  "fst (get_buttons example_session False []) =
     Inr [''html:nth-of-type(1) > body:nth-of-type(1) > form:nth-of-type(2) > button:nth-of-type(1)'',
          ''html:nth-of-type(1) > body:nth-of-type(1) > table:nth-of-type(1) > a:nth-of-type(1)'']"
proof -
  have run: "\<forall>e\<in>set (elements_by_path example_session
      ''//form//a|//button|//input[@type='button']|//input[@type='submit']|//table//a'').
      is_displayed example_session e \<and> is_enabled example_session e \<longrightarrow>
      script_returns example_session e"
    using example_answers_run by (simp add: answers_run_def)
  have val: "map (\<lambda>e. the (tag_of example_session e))
      (filter (\<lambda>e. is_displayed example_session e \<and> is_enabled example_session e \<and>
                 tag_of example_session e \<noteq> None)
         (elements_by_path example_session
            ''//form//a|//button|//input[@type='button']|//input[@type='submit']|//table//a'')) =
     [''html:nth-of-type(1) > body:nth-of-type(1) > form:nth-of-type(2) > button:nth-of-type(1)'',
      ''html:nth-of-type(1) > body:nth-of-type(1) > table:nth-of-type(1) > a:nth-of-type(1)'']"
    by (simp add: spec_eval script_eval example_eval)
  from get_buttons_query_and_order [OF run, of False "[]"] show ?thesis
    unfolding val .
qed

text \<open>
  C10. \<^verbatim>\<open>get_buttons\<close> never reads its parameter \<^verbatim>\<open>in_form\<close>: with \<^verbatim>\<open>True\<close> and
  with \<^verbatim>\<open>False\<close> it returns the same tags (and writes the same log) in every state of
  the page.
\<close>

theorem get_buttons_in_form_unused:
  "get_buttons s True lg = get_buttons s False lg"
  by (simp add: get_buttons_def)

theorem get_buttons_in_form_unused_witness:
  "get_buttons example_session True [] =
     (Inr [''html:nth-of-type(1) > body:nth-of-type(1) > form:nth-of-type(2) > button:nth-of-type(1)'',
           ''html:nth-of-type(1) > body:nth-of-type(1) > table:nth-of-type(1) > a:nth-of-type(1)''],
      [])"
proof -
  have "get_buttons example_session False [] =
     (Inr [''html:nth-of-type(1) > body:nth-of-type(1) > form:nth-of-type(2) > button:nth-of-type(1)'',
           ''html:nth-of-type(1) > body:nth-of-type(1) > table:nth-of-type(1) > a:nth-of-type(1)''],
      [])"
    by (simp add: get_buttons_def truthy_def script_eval example_eval)
  with get_buttons_in_form_unused [of example_session "[]"] show ?thesis by simp
qed

end
